theory Spec2Isabelle
  imports Complex_Main
begin

section \<open>Strings\<close>

text \<open>
  Payloads, patterns, labels and paths are Python \<open>str\<close> values: sequences of code
  points. They are modelled as \<^typ>\<open>string\<close>, a list of characters with the code
  points 0 to 255 (U+0000 to U+00FF); a string with a code point above U+00FF is outside
  the model. On that range \<open>isspace\<close> is \<open>str.isspace\<close>, the whitespace that
  \<open>str.strip()\<close> removes: tab, line feed, vertical tab, form feed, carriage return
  (9 to 13), the separators 28 to 31, space (32), next line (U+0085) and no-break space
  (U+00A0). \<open>lower_char\<close> is \<open>str.lower\<close> on one character: the upper-case
  letters of the range are A to Z (65 to 90) and U+00C0 to U+00DE without the
  multiplication sign U+00D7, and each has its lower-case letter 32 code points above
  it; every other character is its own lower case.
\<close>

definition isspace :: "char \<Rightarrow> bool" where
  "isspace c =
     (let n = (of_char c :: nat)
      in (9 \<le> n \<and> n \<le> 13) \<or> (28 \<le> n \<and> n \<le> 32) \<or> n = 133 \<or> n = 160)"

definition upper_letter :: "char \<Rightarrow> bool" where
  "upper_letter c =
     (let n = (of_char c :: nat)
      in (65 \<le> n \<and> n \<le> 90) \<or> (192 \<le> n \<and> n \<le> 222 \<and> n \<noteq> 215))"

definition lower_char :: "char \<Rightarrow> char" where
  "lower_char c = (if upper_letter c then char_of ((of_char c :: nat) + 32) else c)"

definition lower :: "string \<Rightarrow> string" where
  "lower s = map lower_char s"

text \<open>\<open>str.strip()\<close>: leading and trailing whitespace dropped.\<close>

definition strip :: "string \<Rightarrow> string" where
  "strip s = rev (dropWhile isspace (rev (dropWhile isspace s)))"

section \<open>The normalizer's helpers (\<open>metamaska.utils\<close>)\<close>

text \<open>
  \<open>payload_classifier.py\<close> imports \<open>unquote\<close>, \<open>remove_new_line\<close> and
  \<open>remove_whitespace\<close> from \<open>metamaska/utils.py\<close>, which is not among the
  source files; only its tests are (\<open>tests/test_utils.py\<close>). The three functions are
  therefore modelled from the specification's section 4.1.
\<close>

text \<open>
  Modelled from the spec: part of \<open>metamaska.utils.unquote\<close>, which is missing. The
  value of a hexadecimal digit of an escape, in either case.
\<close>

definition hexval :: "char \<Rightarrow> nat option" where
  "hexval c =
     (let n = (of_char c :: nat) in
      if 48 \<le> n \<and> n \<le> 57 then Some (n - 48)
      else if 65 \<le> n \<and> n \<le> 70 then Some (n - 55)
      else if 97 \<le> n \<and> n \<le> 102 then Some (n - 87)
      else None)"

text \<open>
  Modelled from the spec: part of \<open>metamaska.utils.unquote\<close>, which is missing. What
  follows a \<open>%\<close>: two hexadecimal digits give the decoded character and the rest
  of the string; anything else is no escape.
\<close>

definition escape :: "string \<Rightarrow> (char \<times> string) option" where
  "escape cs =
     (case cs of
        h1 # h2 # rest \<Rightarrow>
          (case (hexval h1, hexval h2) of
             (Some a, Some b) \<Rightarrow> Some (char_of (16 * a + b), rest)
           | _ \<Rightarrow> None)
      | _ \<Rightarrow> None)"

text \<open>
  Modelled from the spec: \<open>metamaska.utils.unquote\<close> is missing. Step 1: "a single
  decode pass over \<open>%XX\<close> escape sequences and \<open>+\<close>-as-space is applied, following
  standard URL-decoding semantics; malformed escapes pass through unchanged rather than
  raising". A decoded character is emitted and never scanned again (single pass); an
  escape \<open>%XX\<close> yields the character with code \<open>XX\<close>. (The specification does
  not say how escapes of 80 and above combine; they are decoded one by one here.)
\<close>

function unquote :: "string \<Rightarrow> string" where
  "unquote [] = []"
| "unquote (c # cs) =
    (if c = CHR ''+'' then CHR '' '' # unquote cs
     else if c = CHR ''%'' then
       (case escape cs of
          Some (d, rest) \<Rightarrow> d # unquote rest
        | None \<Rightarrow> c # unquote cs)
     else c # unquote cs)"
  by pat_completeness auto
termination
  by (relation "measure length")
    (auto simp: escape_def split: list.splits option.splits)

text \<open>
  Modelled from the spec: \<open>metamaska.utils.remove_new_line\<close> is missing. Step 2:
  "Strip all newline characters (\<open>\n\<close>, and \<open>\r\<close> if present) by removing them, not
  replacing with space".
\<close>

definition remove_new_line :: "string \<Rightarrow> string" where
  "remove_new_line s = filter (\<lambda>c. c \<noteq> CHR 0x0A \<and> c \<noteq> CHR 0x0D) s"

text \<open>
  Modelled from the spec: part of \<open>metamaska.utils.remove_whitespace\<close>, which is
  missing. Every run of one or more whitespace characters becomes one space.
\<close>

function collapse :: "string \<Rightarrow> string" where
  "collapse [] = []"
| "collapse (c # cs) =
    (if isspace c then CHR '' '' # collapse (dropWhile isspace cs) else c # collapse cs)"
  by pat_completeness auto
termination
  by (relation "measure length") (auto simp: length_dropWhile_le less_Suc_eq_le)

text \<open>
  Modelled from the spec: \<open>metamaska.utils.remove_whitespace\<close> is missing. Step 4:
  "strip leading/trailing whitespace, and reduce every internal run of one-or-more
  whitespace characters to a single space".
\<close>

definition remove_whitespace :: "string \<Rightarrow> string" where
  "remove_whitespace s = collapse (strip s)"



section \<open>Errors\<close>

text \<open>
  The exceptions the code raises or lets escape, with their messages
  (\<open>AttributeError\<close> with the name of the attribute that \<open>None\<close> lacks).
  \<open>sys.exit(1)\<close> is \<open>SystemExit 1\<close>.
\<close>

datatype error =
  ValueError string | KeyError string | AttributeError string | OSError string | SystemExit nat

section \<open>\<open>metamaska/payload_classifier.py\<close>\<close>

subsection \<open>\<open>PayloadClassifier._transform\<close>\<close>

text \<open>
  \<open>_transform\<close>; the payload is \<open>None\<close> or a string, and \<open>not payload\<close> holds for
  \<open>None\<close> and for the empty string.
\<close>

fun transform :: "string option \<Rightarrow> error + string" where
  "transform None = Inl (ValueError ''payload is required.'')"
| "transform (Some payload) =
    (if payload = [] then Inl (ValueError ''payload is required.'')
     else
       let payload = unquote payload;
           payload = remove_new_line payload;
           payload = lower payload;
           payload = remove_whitespace payload
       in Inr payload)"

text \<open>
  The shape of a string that step 4 leaves alone: every whitespace character is a space
  followed by a non-whitespace character (\<open>ws_normal\<close>), and the string neither starts
  nor ends with whitespace (\<open>trimmed\<close>).
\<close>

fun ws_normal :: "string \<Rightarrow> bool" where
  "ws_normal [] = True"
| "ws_normal [c] = (\<not> isspace c)"
| "ws_normal (c # d # cs) =
     ((isspace c \<longrightarrow> c = CHR '' '' \<and> \<not> isspace d) \<and> ws_normal (d # cs))"

definition trimmed :: "string \<Rightarrow> bool" where
  "trimmed s = (s = [] \<or> (\<not> isspace (hd s) \<and> \<not> isspace (last s)))"

text \<open>
  What the decoding pass would change in a string: a \<open>+\<close>, or a \<open>%\<close> followed by
  two hexadecimal digits.
\<close>

fun decodable :: "string \<Rightarrow> bool" where
  "decodable [] = False"
| "decodable (c # cs) =
     (c = CHR ''+'' \<or> (c = CHR ''%'' \<and> escape cs \<noteq> None) \<or> decodable cs)"

subsection \<open>\<open>predict\<close> and \<open>predict_proba\<close>\<close>

text \<open>
  The object \<open>joblib.load\<close> returns is a fitted scikit-learn pipeline, opaque to this
  repository: its \<open>classes_\<close>, \<open>predict\<close> and \<open>predict_proba\<close> are the fields of a
  record. Both methods take a list of documents and return one entry per document;
  a row of \<open>predict_proba\<close> is aligned with \<open>classes_\<close>. Probabilities are
  rationals (every float is one).
\<close>

record pipeline =
  clf_classes :: "string list"
  clf_predict :: "string list \<Rightarrow> string list"
  clf_predict_proba :: "string list \<Rightarrow> rat list list"

record PayloadClassifier =
  payload_clf :: pipeline
  classes :: "string list"

definition predict :: "PayloadClassifier \<Rightarrow> string option \<Rightarrow> error + string list" where
  "predict self payload =
     (case transform payload of
        Inl e \<Rightarrow> Inl e
      | Inr payload \<Rightarrow> Inr (clf_predict (payload_clf self) [payload]))"

definition predict_proba :: "PayloadClassifier \<Rightarrow> string option \<Rightarrow> error + rat list list" where
  "predict_proba self payload =
     (case transform payload of
        Inl e \<Rightarrow> Inl e
      | Inr payload \<Rightarrow> Inr (clf_predict_proba (payload_clf self) [payload]))"

subsection \<open>The argmax of a probability row\<close>

text \<open>
  The specification's side of "classify is the argmax of classify_proba": the label at
  the first position of \<open>classes_\<close> whose probability is maximal in the row.
\<close>

fun argmax_from :: "nat \<Rightarrow> rat \<Rightarrow> nat \<Rightarrow> rat list \<Rightarrow> nat" where
  "argmax_from best bestv i [] = best"
| "argmax_from best bestv i (p # ps) =
     (if bestv < p then argmax_from i p (Suc i) ps else argmax_from best bestv (Suc i) ps)"

definition argmax :: "rat list \<Rightarrow> nat" where
  "argmax row = (case row of [] \<Rightarrow> 0 | p # ps \<Rightarrow> argmax_from 0 p 1 ps)"

definition argmax_label :: "string list \<Rightarrow> rat list \<Rightarrow> string" where
  "argmax_label cls row = cls ! argmax row"

text \<open>
  \<open>classify\<close> agrees with the argmax of \<open>classify_proba\<close> on a payload: both return,
  one label and one row for the one document, and the label is the row's argmax.
\<close>

definition argmax_agrees :: "string list \<Rightarrow> string list \<Rightarrow> rat list list \<Rightarrow> bool" where
  "argmax_agrees cls labels rows =
     (case (labels, rows) of
        ([l], [row]) \<Rightarrow> length row = length cls \<and> row \<noteq> [] \<and> l = argmax_label cls row
      | _ \<Rightarrow> False)"

text \<open>
  A pipeline whose \<open>predict\<close> follows a decision function of its own and whose
  \<open>predict_proba\<close> is calibrated separately, as scikit-learn's \<open>SVC(probability=True)\<close>
  (the estimator \<open>scripts/train.py\<close> fits) documents for itself.
\<close>

definition split_pipeline :: pipeline where
  "split_pipeline =
     \<lparr> clf_classes = [''cmdi'', ''path-traversal'', ''sqli'', ''valid'', ''xss''],
       clf_predict = map (\<lambda>doc. ''sqli''),
       clf_predict_proba = map (\<lambda>doc. [1/10, 1/10, 3/10, 4/10, 1/10]) \<rparr>"

definition split_classifier :: PayloadClassifier where
  "split_classifier = \<lparr> payload_clf = split_pipeline, classes = clf_classes split_pipeline \<rparr>"

text \<open>A pipeline whose \<open>predict\<close> is the argmax of its \<open>predict_proba\<close>.\<close>

definition argmax_pipeline :: pipeline where
  "argmax_pipeline =
     \<lparr> clf_classes = [''cmdi'', ''path-traversal'', ''sqli'', ''valid'', ''xss''],
       clf_predict = map (\<lambda>doc. ''valid''),
       clf_predict_proba = map (\<lambda>doc. [1/10, 1/10, 3/10, 4/10, 1/10]) \<rparr>"

definition argmax_classifier :: PayloadClassifier where
  "argmax_classifier = \<lparr> payload_clf = argmax_pipeline, classes = clf_classes argmax_pipeline \<rparr>"

subsection \<open>\<open>_ensure_model\<close>\<close>















section \<open>\<open>scripts/collect_data.py\<close>\<close>

text \<open>\<open>Record = dict[str, str]\<close> with the keys \<open>pattern\<close> and \<open>type\<close>.\<close>

record Record =
  pattern :: string
  type :: string

definition VALID_TYPES :: "string set" where
  "VALID_TYPES = {''valid'', ''sqli'', ''xss'', ''cmdi'', ''path-traversal''}"

definition MAX_LINES_PER_FILE :: nat where
  "MAX_LINES_PER_FILE = 5000"

definition make_record :: "string \<Rightarrow> string \<Rightarrow> Record option" where
  "make_record pat ty =
     (let pat = strip pat
      in if pat = [] \<or> ty \<notin> VALID_TYPES then None
         else Some \<lparr> pattern = pat, type = ty \<rparr>)"

text \<open>
  \<open>collect_httpparams\<close>. The download and the CSV reader are the input: \<open>None\<close> when
  the request fails, else the rows. A row of \<open>csv.DictReader\<close> is a dictionary from
  column name to value, and the value of a column that a short line lacks is \<open>None\<close>:
  \<open>row k = None\<close> when the header has no column \<open>k\<close>, \<open>row k = Some None\<close> when
  the line has no field for it, \<open>row k = Some (Some v)\<close> otherwise.
\<close>

type_synonym row = "string \<rightharpoonup> string option"

definition type_map :: "string \<rightharpoonup> string" where
  "type_map = map_of [(''norm'', ''valid''), (''sqli'', ''sqli''), (''xss'', ''xss'')]"

text \<open>\<open>row.get(k, d)\<close>: a string or \<open>None\<close>.\<close>

definition row_get :: "row \<Rightarrow> string \<Rightarrow> string \<Rightarrow> string option" where
  "row_get row k d = (case row k of None \<Rightarrow> Some d | Some v \<Rightarrow> v)"

text \<open>\<open>v.strip()\<close> on a string or \<open>None\<close>; \<open>None\<close> has no such method.\<close>

definition value_strip :: "string option \<Rightarrow> error + string" where
  "value_strip v =
     (case v of None \<Rightarrow> Inl (AttributeError ''strip'') | Some s \<Rightarrow> Inr (strip s))"

text \<open>
  One turn of the loop over the rows: an error, no record (\<open>continue\<close>, or
  \<open>_make_record\<close> returned \<open>None\<close>), or the record to append. With \<open>None\<close> as
  payload, \<open>_make_record\<close> fails at \<open>pattern.strip()\<close>.
\<close>

definition httpparams_row :: "row \<Rightarrow> error + Record option" where
  "httpparams_row row =
     (case value_strip (row_get row ''label'' []) of
        Inl e \<Rightarrow> Inl e
      | Inr l \<Rightarrow>
          (case (case type_map (lower l) of
                   None \<Rightarrow>
                     (case value_strip (row_get row ''attack_type'' []) of
                        Inl e \<Rightarrow> Inl e
                      | Inr a \<Rightarrow> Inr (type_map (lower a)))
                 | Some label \<Rightarrow> Inr (Some label)) of
             Inl e \<Rightarrow> Inl e
           | Inr None \<Rightarrow> Inr None
           | Inr (Some label) \<Rightarrow>
               (case row_get row ''payload'' [] of
                  None \<Rightarrow> Inl (AttributeError ''strip'')
                | Some payload \<Rightarrow> Inr (make_record payload label))))"

fun httpparams_loop :: "row list \<Rightarrow> Record list \<Rightarrow> error + Record list" where
  "httpparams_loop [] records = Inr records"
| "httpparams_loop (row # rows) records =
     (case httpparams_row row of
        Inl e \<Rightarrow> Inl e
      | Inr None \<Rightarrow> httpparams_loop rows records
      | Inr (Some rec) \<Rightarrow> httpparams_loop rows (records @ [rec]))"

definition collect_httpparams :: "row list option \<Rightarrow> error + Record list" where
  "collect_httpparams resp =
     (case resp of None \<Rightarrow> Inr [] | Some rows \<Rightarrow> httpparams_loop rows [])"

text \<open>
  PayloadsAllTheThings. \<open>PATT_DIRS\<close> in the dictionary's order. What a checkout or the
  GitHub API delivers is the input: for a directory of \<open>PATT_DIRS\<close>, \<open>None\<close> when it
  is not there (or its listing fails), else the lines of each \<open>.txt\<close> file obtained.
\<close>

definition PATT_DIRS :: "(string \<times> string) list" where
  "PATT_DIRS =
     [(''SQL Injection/Intruder'', ''sqli''),
      (''XSS Injection/Intruders'', ''xss''),
      (''Command Injection/Intruder'', ''cmdi''),
      (''Directory Traversal/Intruder'', ''path-traversal'')]"

type_synonym tree = "string \<Rightarrow> string list list option"

definition records_of_lines :: "string \<Rightarrow> string list \<Rightarrow> Record list" where
  "records_of_lines ty ls = List.map_filter (\<lambda>line. make_record line ty) (take MAX_LINES_PER_FILE ls)"

definition records_of_tree :: "tree \<Rightarrow> Record list" where
  "records_of_tree t =
     concat (map (\<lambda>(dir_rel, ty).
                    case t dir_rel of
                      None \<Rightarrow> []
                    | Some txts \<Rightarrow> concat (map (records_of_lines ty) txts))
                 PATT_DIRS)"

definition sparse_clone_patt :: "tree option \<Rightarrow> Record list" where
  "sparse_clone_patt clone = (case clone of None \<Rightarrow> [] | Some t \<Rightarrow> records_of_tree t)"

definition api_download_patt :: "tree \<Rightarrow> Record list" where
  "api_download_patt api = records_of_tree api"

definition collect_payloadsallthethings :: "tree option \<Rightarrow> tree \<Rightarrow> Record list" where
  "collect_payloadsallthethings clone api =
     (let records = sparse_clone_patt clone
      in if records = [] then api_download_patt api else records)"

definition collect_kaggle_xss :: "Record list" where
  "collect_kaggle_xss = []"

definition collect_ecml_pkdd :: "Record list" where
  "collect_ecml_pkdd = []"

definition collect_hacktricks :: "Record list" where
  "collect_hacktricks = []"

definition key :: "Record \<Rightarrow> string \<times> string" where
  "key r = (pattern r, type r)"

definition dedup_step :: "Record \<Rightarrow> (string \<times> string) set \<times> Record list \<Rightarrow> (string \<times> string) set \<times> Record list" where
  "dedup_step r st =
     (case st of (seen, unique) \<Rightarrow>
        if key r \<notin> seen then (insert (key r) seen, unique @ [r]) else (seen, unique))"

definition deduplicate :: "Record list \<Rightarrow> Record list" where
  "deduplicate records = snd (fold dedup_step records ({}, []))"

text \<open>
  \<open>main\<close> up to the write: the list that \<open>json.dumps\<close> serialises, or the
  error that ends the run before anything is written.
\<close>

definition collect_main ::
  "row list option \<Rightarrow> tree option \<Rightarrow> tree \<Rightarrow> error + Record list" where
  "collect_main resp clone api =
     (let all_records = []
      in case collect_httpparams resp of
           Inl e \<Rightarrow> Inl e
         | Inr httpparams \<Rightarrow>
             let all_records = all_records @ httpparams;
                 all_records = all_records @ collect_payloadsallthethings clone api;
                 all_records = all_records @ collect_kaggle_xss;
                 all_records = all_records @ collect_ecml_pkdd;
                 all_records = all_records @ collect_hacktricks
             in Inr (deduplicate all_records))"

text \<open>The positions of a list that hold the first occurrence of their key.\<close>

definition first_occurrences :: "Record list \<Rightarrow> Record list" where
  "first_occurrences rs =
     map (\<lambda>i. rs ! i) (filter (\<lambda>i. key (rs ! i) \<notin> key ` set (take i rs)) [0..<length rs])"

text \<open>Sample inputs of the collector; the row \<open>short_row\<close> lacks its last field.\<close>

definition sample_rows :: "row list" where
  "sample_rows =
     [map_of [(''payload'', Some '' 1 OR 1=1 ''), (''label'', Some ''anom''),
              (''attack_type'', Some ''SQLi'')],
      map_of [(''payload'', Some ''hello''), (''label'', Some ''norm''),
              (''attack_type'', Some ''norm'')],
      map_of [(''payload'', Some ''   ''), (''label'', Some ''norm''),
              (''attack_type'', Some ''norm'')],
      map_of [(''payload'', Some ''1 OR 1=1''), (''label'', Some ''sqli''),
              (''attack_type'', Some ''sqli'')],
      map_of [(''payload'', Some ''ls''), (''label'', Some ''cmdi''),
              (''attack_type'', Some ''cmdi'')]]"

definition short_row :: row where
  "short_row = map_of [(''payload'', Some ''hello''), (''label'', Some ''anom''),
                       (''attack_type'', None)]"

definition sample_tree :: tree where
  "sample_tree =
     map_of [(''SQL Injection/Intruder'', [[''1 OR 1=1'', '''', ''admin' --'']]),
             (''Command Injection/Intruder'', [[''; ls '', ''hello'']])]"

section \<open>\<open>scripts/train.py\<close>\<close>

text \<open>
  What \<open>main\<close> reads and writes: the dataset file (\<open>None\<close> when it does not exist,
  else the records of its JSON array), the model directory, the model file (\<open>None\<close>
  when absent, else the pipeline dumped into it), and the library calls made so far.
\<close>

datatype call = ReadJson | TrainTestSplit | Fit | Mkdir | Dump

record 'p disk =
  dataset_file :: "Record list option"
  model_dir :: bool
  model_file :: "'p option"
  calls :: "call list"

text \<open>
  scikit-learn is a parameter: the stratified split (which may refuse), the fit of the
  TF-IDF and SVC pipeline (which may refuse), and the accuracy of a fitted pipeline on
  a sample.
\<close>

record 'p sklearn =
  train_test_split ::
    "string list \<Rightarrow> string list \<Rightarrow> error + (string list \<times> string list \<times> string list \<times> string list)"
  fit :: "string list \<Rightarrow> string list \<Rightarrow> error + 'p"
  score :: "'p \<Rightarrow> string list \<Rightarrow> string list \<Rightarrow> rat"

definition MIN_ACCURACY :: rat where
  "MIN_ACCURACY = 98 / 100"

definition called :: "call \<Rightarrow> 'p disk \<Rightarrow> 'p disk" where
  "called c d = d\<lparr>calls := calls d @ [c]\<rparr>"

text \<open>
  \<open>main\<close>. An empty JSON array gives a frame without columns, and \<open>df["type"]\<close>
  raises \<open>KeyError\<close>.
\<close>

definition train_main :: "'p sklearn \<Rightarrow> 'p disk \<Rightarrow> (error + unit) \<times> 'p disk" where
  "train_main sk d =
     (case dataset_file d of
        None \<Rightarrow> (Inl (SystemExit 1), d)
      | Some df \<Rightarrow>
          let d = called ReadJson d
          in if df = [] then (Inl (KeyError ''type''), d)
             else
               let X = map pattern df;
                   y = map type df;
                   d = called TrainTestSplit d
               in case train_test_split sk X y of
                    Inl e \<Rightarrow> (Inl e, d)
                  | Inr (train_x, test_x, train_y, test_y) \<Rightarrow>
                      let d = called Fit d
                      in case fit sk train_x train_y of
                           Inl e \<Rightarrow> (Inl e, d)
                         | Inr pipe \<Rightarrow>
                             let train_acc = score sk pipe train_x train_y;
                                 test_acc = score sk pipe test_x test_y
                             in if test_acc < MIN_ACCURACY then (Inl (SystemExit 1), d)
                                else
                                  let d = called Mkdir d;
                                      d = d\<lparr>model_dir := True\<rparr>;
                                      d = called Dump d;
                                      d = d\<lparr>model_file := Some pipe\<rparr>
                                  in (Inr (), d))"

text \<open>
  A stand-in for scikit-learn: the split sends every fourth record to the test
  partition, the fitted pipeline is the list of labels seen in training, and the
  accuracy is a given number.
\<close>

fun every_fourth :: "nat \<Rightarrow> 'a list \<Rightarrow> 'a list \<times> 'a list" where
  "every_fourth i [] = ([], [])"
| "every_fourth i (x # xs) =
     (case every_fourth (Suc i) xs of
        (train, test) \<Rightarrow> if i mod 4 = 3 then (train, x # test) else (x # train, test))"

definition stub_sklearn :: "rat \<Rightarrow> (string list) sklearn" where
  "stub_sklearn acc =
     \<lparr> train_test_split =
         (\<lambda>X y. Inr (fst (every_fourth 0 X), snd (every_fourth 0 X),
                      fst (every_fourth 0 y), snd (every_fourth 0 y))),
       fit = (\<lambda>X y. Inr (remdups y)),
       score = (\<lambda>pipe X y. acc) \<rparr>"

definition fresh_disk :: "Record list \<Rightarrow> (string list) disk" where
  "fresh_disk df = \<lparr> dataset_file = Some df, model_dir = False, model_file = None, calls = [] \<rparr>"

text \<open>A dataset within the closed label set, and one with a label outside it.\<close>

definition gated_dataset :: "Record list" where
  "gated_dataset =
     [\<lparr> pattern = ''hello'', type = ''valid'' \<rparr>,
      \<lparr> pattern = ''1 OR 1=1'', type = ''sqli'' \<rparr>,
      \<lparr> pattern = ''1 OR 2=2'', type = ''sqli'' \<rparr>,
      \<lparr> pattern = ''world'', type = ''valid'' \<rparr>,
      \<lparr> pattern = ''john'', type = ''valid'' \<rparr>,
      \<lparr> pattern = ''admin' --'', type = ''sqli'' \<rparr>,
      \<lparr> pattern = ''42'', type = ''valid'' \<rparr>,
      \<lparr> pattern = ''1; DROP TABLE t'', type = ''sqli'' \<rparr>]"

definition foreign_dataset :: "Record list" where
  "foreign_dataset =
     [\<lparr> pattern = ''hello'', type = ''valid'' \<rparr>,
      \<lparr> pattern = ''<blink>a</blink>'', type = ''html-injection'' \<rparr>,
      \<lparr> pattern = ''<blink>b</blink>'', type = ''html-injection'' \<rparr>,
      \<lparr> pattern = ''world'', type = ''valid'' \<rparr>,
      \<lparr> pattern = ''john'', type = ''valid'' \<rparr>,
      \<lparr> pattern = ''<marquee>c</marquee>'', type = ''html-injection'' \<rparr>,
      \<lparr> pattern = ''42'', type = ''valid'' \<rparr>,
      \<lparr> pattern = ''<marquee>d</marquee>'', type = ''html-injection'' \<rparr>]"

section \<open>Properties of the normalizer\<close>

lemma isspace_space [simp]: "isspace (CHR '' '')"
  by (simp add: isspace_def)

lemma isspace_lower_char [simp]: "isspace (lower_char c) = isspace c"
  by (auto simp: lower_char_def upper_letter_def isspace_def Let_def)

lemma lower_char_idem [simp]: "lower_char (lower_char c) = lower_char c"
  by (auto simp: lower_char_def upper_letter_def Let_def)

lemma lower_char_space [simp]: "lower_char (CHR '' '') = CHR '' ''"
  by (simp add: lower_char_def upper_letter_def)

lemma lower_char_eq_nl [simp]: "lower_char c = CHR 0x0A \<longleftrightarrow> c = CHR 0x0A"
  by (auto simp: lower_char_def upper_letter_def Let_def char_of_eq_iff take_bit_eq_mod)

lemma lower_char_eq_cr [simp]: "lower_char c = CHR 0x0D \<longleftrightarrow> c = CHR 0x0D"
  by (auto simp: lower_char_def upper_letter_def Let_def char_of_eq_iff take_bit_eq_mod)

lemma collapse_id: "ws_normal s \<Longrightarrow> collapse s = s"
  by (induction s rule: ws_normal.induct) auto

lemma ws_normal_last: "ws_normal s \<Longrightarrow> s \<noteq> [] \<Longrightarrow> \<not> isspace (last s)"
  by (induction s rule: ws_normal.induct) auto

lemma collapse_Nil_iff [simp]: "collapse s = [] \<longleftrightarrow> s = []"
  by (cases s) auto

lemma hd_collapse: "s \<noteq> [] \<Longrightarrow> \<not> isspace (hd s) \<Longrightarrow> hd (collapse s) = hd s"
  by (cases s) auto

lemma dropWhile_last_nonspace:
  "cs \<noteq> [] \<Longrightarrow> \<not> isspace (last cs) \<Longrightarrow> dropWhile isspace cs \<noteq> [] \<and> last (dropWhile isspace cs) = last cs"
  by (induction cs) (auto split: if_splits)

lemma ws_normal_collapse:
  "s = [] \<or> \<not> isspace (last s) \<Longrightarrow> ws_normal (collapse s)"
proof (induction s rule: collapse.induct)
  case 1
  show ?case by simp
next
  case (2 c cs)
  show ?case
  proof (cases "isspace c")
    case True
    with 2(3) have cs: "cs \<noteq> []" "\<not> isspace (last cs)" by (auto split: if_splits)
    let ?d = "dropWhile isspace cs"
    from dropWhile_last_nonspace[OF cs] have d: "?d \<noteq> []" "\<not> isspace (last ?d)"
      using cs by auto
    have hdd: "\<not> isspace (hd ?d)" using d(1) hd_dropWhile by blast
    from 2(1)[OF True] d have n: "ws_normal (collapse ?d)" by simp
    have "collapse ?d \<noteq> []" unfolding collapse_Nil_iff using d(1) .
    then obtain e es where e: "collapse ?d = e # es" by (cases "collapse ?d") auto
    have "e = hd ?d" using hd_collapse[OF d(1) hdd] e by simp
    with hdd n e True show ?thesis by simp
  next
    case False
    show ?thesis
    proof (cases cs)
      case Nil
      with False show ?thesis by simp
    next
      case (Cons d ds)
      with 2(3) have "\<not> isspace (last cs)" by simp
      with 2(2)[OF False] have n: "ws_normal (collapse cs)" by simp
      have "collapse cs \<noteq> []" unfolding collapse_Nil_iff using Cons by simp
      then obtain e es where e: "collapse cs = e # es" by (cases "collapse cs") auto
      with n False show ?thesis by simp
    qed
  qed
qed

lemma trimmed_strip: "trimmed (strip s)"
proof -
  let ?t = "dropWhile isspace s"
  let ?r = "dropWhile isspace (rev ?t)"
  show ?thesis
  proof (cases "?r = []")
    case True
    then show ?thesis by (simp add: trimmed_def strip_def)
  next
    case False
    have t: "?t \<noteq> []"
    proof
      assume "?t = []"
      then have "?r = []" by (simp only: rev.simps dropWhile.simps)
      with False show False by (rule notE)
    qed
    have h1: "\<not> isspace (hd ?r)" using False hd_dropWhile by blast
    have hdt: "\<not> isspace (hd ?t)" using t hd_dropWhile by blast
    have "last (rev ?r) = hd ?r" using False by (simp add: last_rev)
    moreover have "hd (rev ?r) = hd ?t"
    proof -
      obtain us where "rev ?t = us @ ?r"
        by (metis takeWhile_dropWhile_id)
      then have "?t = rev ?r @ rev us" by (metis rev_append rev_rev_ident)
      then show ?thesis using False by (metis hd_append2 rev_is_Nil_conv)
    qed
    ultimately show ?thesis using h1 hdt False by (simp add: trimmed_def strip_def)
  qed
qed

lemma strip_id: "trimmed s \<Longrightarrow> strip s = s"
proof (cases "s = []")
  case True
  then show ?thesis by (simp add: strip_def)
next
  case False
  assume "trimmed s"
  with False have h: "\<not> isspace (hd s)" "\<not> isspace (last s)" by (auto simp: trimmed_def)
  have 1: "dropWhile isspace s = s" using False h(1) by (cases s) auto
  obtain x xs where xs: "rev s = x # xs" using False by (cases "rev s") auto
  then have "x = last s" using False by (metis hd_rev list.sel(1))
  then have 2: "dropWhile isspace (rev s) = rev s" using h(2) xs by (simp only: dropWhile.simps if_False)
  show ?thesis by (simp add: strip_def 1 2)
qed

lemma strip_idem: "strip (strip s) = strip s"
  by (rule strip_id [OF trimmed_strip])

lemma set_strip: "set (strip s) \<subseteq> set s"
proof
  fix c assume "c \<in> set (strip s)"
  then have "c \<in> set (dropWhile isspace (rev (dropWhile isspace s)))" by (simp add: strip_def)
  then have "c \<in> set (rev (dropWhile isspace s))" by (rule set_dropWhileD)
  then have "c \<in> set (dropWhile isspace s)" by simp
  then show "c \<in> set s" by (rule set_dropWhileD)
qed

lemma set_collapse: "set (collapse s) \<subseteq> insert (CHR '' '') {c \<in> set s. \<not> isspace c}"
  by (induction s rule: collapse.induct) (auto dest: set_dropWhileD)

lemma ws_normal_remove_whitespace: "ws_normal (remove_whitespace s)"
proof -
  have "strip s = [] \<or> \<not> isspace (last (strip s))"
    using trimmed_strip[of s] by (auto simp: trimmed_def)
  then show ?thesis unfolding remove_whitespace_def by (rule ws_normal_collapse)
qed

lemma trimmed_remove_whitespace: "trimmed (remove_whitespace s)"
proof (cases "strip s = []")
  case True
  then show ?thesis by (simp add: remove_whitespace_def trimmed_def)
next
  case False
  then have "\<not> isspace (hd (strip s))" using trimmed_strip[of s] by (simp add: trimmed_def)
  then have "\<not> isspace (hd (remove_whitespace s))"
    using False by (simp add: remove_whitespace_def hd_collapse)
  moreover have "remove_whitespace s \<noteq> []" using False by (simp add: remove_whitespace_def)
  ultimately show ?thesis
    using ws_normal_last[OF ws_normal_remove_whitespace, of s] by (simp add: trimmed_def)
qed

lemma remove_whitespace_id: "ws_normal s \<Longrightarrow> trimmed s \<Longrightarrow> remove_whitespace s = s"
  by (simp add: remove_whitespace_def strip_id collapse_id)

lemma unquote_id: "CHR ''%'' \<notin> set s \<Longrightarrow> CHR ''+'' \<notin> set s \<Longrightarrow> unquote s = s"
  by (induction s) auto

lemma remove_new_line_id: "CHR 0x0A \<notin> set s \<Longrightarrow> CHR 0x0D \<notin> set s \<Longrightarrow> remove_new_line s = s"
  by (induction s) (auto simp: remove_new_line_def)

lemma lower_id: "\<forall>c\<in>set s. lower_char c = c \<Longrightarrow> lower s = s"
  by (simp add: lower_def map_idI)

lemma strip_all_space:
  assumes "\<forall>c\<in>set s. isspace c"
  shows "strip s = []"
proof -
  have "dropWhile isspace s = []" using assms by simp
  then show ?thesis by (simp only: strip_def rev.simps dropWhile.simps)
qed

lemma remove_new_line_no_newline:
  "CHR 0x0A \<notin> set (remove_new_line s) \<and> CHR 0x0D \<notin> set (remove_new_line s)"
  by (simp add: remove_new_line_def)

lemma set_remove_whitespace:
  "set (remove_whitespace s) \<subseteq> insert (CHR '' '') (set s)"
  unfolding remove_whitespace_def using set_collapse[of "strip s"] set_strip[of s] by auto

lemma escape_length: "escape cs = Some (d, rest) \<Longrightarrow> length cs = length rest + 2"
  by (auto simp: escape_def split: list.splits option.splits)

lemma length_unquote: "length (unquote s) \<le> length s"
proof (induction s rule: unquote.induct)
  case 1
  show ?case by simp
next
  case (2 c cs)
  show ?case
  proof (cases "c \<noteq> CHR ''+'' \<and> c = CHR ''%'' \<and> escape cs \<noteq> None")
    case True
    then obtain d rest where e: "escape cs = Some (d, rest)" by auto
    from True e have "length (unquote rest) \<le> length rest" by (intro 2(3)) auto
    with True e escape_length[OF e] show ?thesis by simp
  next
    case False
    then show ?thesis using 2(1,2,4) by (auto split: option.splits)
  qed
qed

lemma unquote_not_decodable: "\<not> decodable s \<Longrightarrow> unquote s = s"
  by (induction s rule: unquote.induct) (auto split: option.splits)

lemma unquote_same_length_no_plus:
  "length (unquote s) = length s \<Longrightarrow> CHR ''+'' \<notin> set (unquote s)"
proof (induction s rule: unquote.induct)
  case 1
  show ?case by simp
next
  case (2 c cs)
  show ?case
  proof (cases "c = CHR ''%'' \<and> escape cs \<noteq> None")
    case True
    then obtain d rest where e: "escape cs = Some (d, rest)" and c: "c = CHR ''%''" by auto
    have "length (unquote (c # cs)) = Suc (length (unquote rest))" using c e by simp
    moreover have "length (unquote rest) \<le> length rest" by (rule length_unquote)
    ultimately have "length (unquote (c # cs)) < length (c # cs)"
      using escape_length[OF e] by simp
    with 2(5) show ?thesis by simp
  next
    case False
    then have u: "unquote (c # cs) = (if c = CHR ''+'' then CHR '' '' else c) # unquote cs"
      by (auto split: option.splits)
    with 2(5) have l: "length (unquote cs) = length cs" by simp
    from False have en: "c = CHR ''%'' \<Longrightarrow> escape cs = None" by blast
    have "CHR ''+'' \<notin> set (unquote cs)"
    proof (cases "c = CHR ''+''")
      case True
      from 2(1)[OF True l] show ?thesis .
    next
      case nplus: False
      show ?thesis
      proof (cases "c = CHR ''%''")
        case True
        from 2(2)[OF nplus True en[OF True] l] show ?thesis .
      next
        case False
        from 2(4)[OF nplus False l] show ?thesis .
      qed
    qed
    with u show ?thesis by auto
  qed
qed

lemma unquote_same_length_decodable:
  "length (unquote s) = length s \<Longrightarrow> decodable s \<Longrightarrow> CHR ''+'' \<in> set s"
proof (induction s rule: unquote.induct)
  case 1
  then show ?case by simp
next
  case (2 c cs)
  show ?case
  proof (cases "c = CHR ''%'' \<and> escape cs \<noteq> None")
    case True
    then obtain d rest where e: "escape cs = Some (d, rest)" and c: "c = CHR ''%''" by auto
    have "length (unquote (c # cs)) = Suc (length (unquote rest))" using c e by simp
    moreover have "length (unquote rest) \<le> length rest" by (rule length_unquote)
    ultimately have "length (unquote (c # cs)) < length (c # cs)"
      using escape_length[OF e] by simp
    with 2(5) show ?thesis by simp
  next
    case False
    then have u: "unquote (c # cs) = (if c = CHR ''+'' then CHR '' '' else c) # unquote cs"
      by (auto split: option.splits)
    with 2(5) have l: "length (unquote cs) = length cs" by simp
    show ?thesis
    proof (cases "c = CHR ''+''")
      case True
      then show ?thesis by simp
    next
      case nplus: False
      with False 2(6) have d: "decodable cs" by auto
      from False have en: "c = CHR ''%'' \<Longrightarrow> escape cs = None" by blast
      have "CHR ''+'' \<in> set cs"
      proof (cases "c = CHR ''%''")
        case True
        from 2(2)[OF nplus True en[OF True] l d] show ?thesis .
      next
        case False
        from 2(4)[OF nplus False l d] show ?thesis .
      qed
      then show ?thesis by simp
    qed
  qed
qed

lemma length_collapse: "length (collapse s) \<le> length s"
proof (induction s rule: collapse.induct)
  case 1
  show ?case by simp
next
  case (2 c cs)
  have "length (dropWhile isspace cs) \<le> length cs" by (rule length_dropWhile_le)
  with 2 show ?case by (cases "isspace c") auto
qed

lemma length_strip: "length (strip s) \<le> length s"
proof -
  have "length (strip s) \<le> length (dropWhile isspace s)"
    unfolding strip_def using length_dropWhile_le[of isspace "rev (dropWhile isspace s)"] by simp
  also have "\<dots> \<le> length s" by (rule length_dropWhile_le)
  finally show ?thesis .
qed

lemma length_remove_whitespace: "length (remove_whitespace s) \<le> length s"
  unfolding remove_whitespace_def
  using length_collapse[of "strip s"] length_strip[of s] by simp

lemma length_remove_new_line: "length (remove_new_line s) \<le> length s"
  by (simp add: remove_new_line_def)

lemma lower_char_eq_plus: "lower_char c = CHR ''+'' \<Longrightarrow> c = CHR ''+''"
  by (auto simp: lower_char_def upper_letter_def Let_def char_of_eq_iff take_bit_eq_mod
      split: if_splits)

lemma plus_in_normal_form:
  assumes "CHR ''+'' \<in> set (remove_whitespace (lower (remove_new_line u)))"
  shows "CHR ''+'' \<in> set u"
proof -
  from assms set_remove_whitespace[of "lower (remove_new_line u)"]
  have "CHR ''+'' \<in> insert (CHR '' '') (set (lower (remove_new_line u)))" by (rule subsetD[rotated])
  then have "CHR ''+'' \<in> lower_char ` set (remove_new_line u)" by (simp add: lower_def)
  then obtain c where c: "c \<in> set (remove_new_line u)" "CHR ''+'' = lower_char c" by (rule imageE)
  then have "c = CHR ''+''" using lower_char_eq_plus[of c] by simp
  with c(1) show ?thesis by (simp add: remove_new_line_def)
qed

lemma transform_Some:
  "payload \<noteq> [] \<Longrightarrow>
   transform (Some payload) = Inr (remove_whitespace (lower (remove_new_line (unquote payload))))"
  by (simp add: Let_def)

lemma transform_fixed:
  assumes "y \<noteq> []" "\<not> decodable y"
    "CHR 0x0A \<notin> set y" "CHR 0x0D \<notin> set y" "\<forall>c\<in>set y. lower_char c = c"
    "ws_normal y" "trimmed y"
  shows "transform (Some y) = Inr y"
  using assms
  by (simp add: transform_Some unquote_not_decodable remove_new_line_id lower_id
      remove_whitespace_id)

lemma transform_output:
  assumes "transform (Some payload) = Inr y"
  shows "CHR 0x0A \<notin> set y" "CHR 0x0D \<notin> set y" "\<forall>c\<in>set y. lower_char c = c"
    "ws_normal y" "trimmed y"
proof -
  let ?u = "remove_new_line (unquote payload)"
  from assms have y: "y = remove_whitespace (lower ?u)"
    by (auto simp: Let_def split: if_splits)
  have sub: "set y \<subseteq> insert (CHR '' '') (lower_char ` set ?u)"
    using set_remove_whitespace[of "lower ?u"] by (simp add: y lower_def)
  have nl: "CHR 0x0A \<notin> set ?u" "CHR 0x0D \<notin> set ?u"
    using remove_new_line_no_newline by auto
  show "CHR 0x0A \<notin> set y"
  proof
    assume "CHR 0x0A \<in> set y"
    with sub have "CHR 0x0A \<in> insert (CHR '' '') (lower_char ` set ?u)" by (rule subsetD)
    then have "CHR 0x0A \<in> lower_char ` set ?u" by simp
    then obtain c where "c \<in> set ?u" "CHR 0x0A = lower_char c" by (rule imageE)
    then have "CHR 0x0A \<in> set ?u" by (metis lower_char_eq_nl)
    with nl(1) show False by (rule notE)
  qed
  show "CHR 0x0D \<notin> set y"
  proof
    assume "CHR 0x0D \<in> set y"
    with sub have "CHR 0x0D \<in> insert (CHR '' '') (lower_char ` set ?u)" by (rule subsetD)
    then have "CHR 0x0D \<in> lower_char ` set ?u" by simp
    then obtain c where "c \<in> set ?u" "CHR 0x0D = lower_char c" by (rule imageE)
    then have "CHR 0x0D \<in> set ?u" by (metis lower_char_eq_cr)
    with nl(2) show False by (rule notE)
  qed
  show "\<forall>c\<in>set y. lower_char c = c" using sub by auto
  show "ws_normal y" by (simp add: y ws_normal_remove_whitespace)
  show "trimmed y" by (simp add: y trimmed_remove_whitespace)
qed

lemma transform_fixed_not_decodable:
  assumes "transform (Some y) = Inr y"
  shows "y \<noteq> [] \<and> \<not> decodable y"
proof
  show ne: "y \<noteq> []" using assms by auto
  show "\<not> decodable y"
  proof
    assume d: "decodable y"
    let ?u = "unquote y"
    from assms ne have y: "y = remove_whitespace (lower (remove_new_line ?u))"
      by (simp add: Let_def)
    have "length y \<le> length (lower (remove_new_line ?u))"
      using length_remove_whitespace[of "lower (remove_new_line ?u)"] y by simp
    also have "\<dots> \<le> length ?u" using length_remove_new_line[of ?u] by (simp add: lower_def)
    finally have "length y \<le> length ?u" .
    with length_unquote[of y] have l: "length ?u = length y" by simp
    from unquote_same_length_decodable[OF l d] have "CHR ''+'' \<in> set y" .
    then have "CHR ''+'' \<in> set (remove_whitespace (lower (remove_new_line ?u)))"
      using y by simp
    then have "CHR ''+'' \<in> set ?u" by (rule plus_in_normal_form)
    with unquote_same_length_no_plus[OF l] show False by simp
  qed
qed

text \<open>
  The three modelled helpers pass the repository's own tests (\<open>tests/test_utils.py\<close>).
\<close>

lemma test_utils:
  "unquote ([CHR 0x22] @ ''onfocus='' @ [CHR 0x22] @ ''alert('Y000')'' @ [CHR 0x22] @
            ''+autofocus='' @ [CHR 0x22]) =
     [CHR 0x22] @ ''onfocus='' @ [CHR 0x22] @ ''alert('Y000')'' @ [CHR 0x22] @
     '' autofocus='' @ [CHR 0x22]"
  "remove_new_line (''payload'' @ [CHR 0x0A]) = ''payload''"
  "remove_whitespace '' payload '' = ''payload''"
  by code_simp+

section \<open>The normalizer (C1, C8, C3, C2, C10)\<close>





















text \<open>
  Claim C8. For every non-empty payload, \<open>_transform\<close> returns a string, and that
  string contains no line feed and no carriage return: step 2 removes them (also those
  that step 1 decoded from \<open>%0A\<close> and \<open>%0D\<close>), and lowercasing and whitespace
  collapsing bring none back.
\<close>

theorem transform_no_newline:
  "payload \<noteq> [] \<Longrightarrow>
   \<exists>y. transform (Some payload) = Inr y \<and> CHR 0x0A \<notin> set y \<and> CHR 0x0D \<notin> set y"
  using transform_Some transform_output(1,2) by blast

theorem transform_no_newline_witness:
  "\<exists>y. transform (Some [CHR ''a'', CHR 0x0D, CHR 0x0A, CHR ''%'', CHR ''0'', CHR ''A'', CHR ''b'']) = Inr y \<and> CHR 0x0A \<notin> set y \<and> CHR 0x0D \<notin> set y"
  using transform_no_newline [of "[CHR ''a'', CHR 0x0D, CHR 0x0A, CHR ''%'', CHR ''0'', CHR ''A'', CHR ''b'']"]
  by simp

text \<open>
  Claim C3. With an empty string or \<open>None\<close> as payload, \<open>_transform\<close>,
  \<open>predict\<close> and \<open>predict_proba\<close> all raise the same error, the
  \<open>ValueError\<close> with message "payload is required." that stands for the
  specification's InvalidInputError; no label and no other error is returned.
\<close>

theorem transform_empty_raises:
  "payload = None \<or> payload = Some [] \<Longrightarrow>
   transform payload = Inl (ValueError ''payload is required.'') \<and>
   predict self payload = Inl (ValueError ''payload is required.'') \<and>
   predict_proba self payload = Inl (ValueError ''payload is required.'')"
  by (auto simp: predict_def predict_proba_def)

theorem transform_empty_raises_witness:
  "transform None = Inl (ValueError ''payload is required.'') \<and>
   predict split_classifier None = Inl (ValueError ''payload is required.'') \<and>
   predict_proba split_classifier (Some []) = Inl (ValueError ''payload is required.'')"
  using transform_empty_raises [of None split_classifier]
    transform_empty_raises [of "Some []" split_classifier]
  by simp

text \<open>
  Idempotence fails as stated. The single decoding pass turns \<open>%2541\<close> into
  \<open>%41\<close>, which a second call decodes to \<open>a\<close>; and a single space is normalized
  to the empty string, which a second call rejects.
\<close>

theorem transform_idempotent_counterexample:
  "transform (Some ''%2541'') = Inr ''%41'' \<and> transform (Some ''%41'') = Inr ''a'' \<and>
   transform (Some '' '') = Inr [] \<and> transform (Some []) = Inl (ValueError ''payload is required.'')"
  by code_simp

text \<open>
  Claim C2, amended. Normalization is idempotent on its own output exactly when that
  output is non-empty and holds nothing the decoding pass would change: for every
  non-empty payload \<open>x\<close>, \<open>normalize (normalize x) = normalize x\<close> if and only if
  \<open>normalize x\<close> is non-empty and contains no \<open>+\<close> and no \<open>%\<close> followed by two
  hexadecimal digits.
\<close>

theorem transform_idempotent_iff_not_decodable:
  "payload \<noteq> [] \<Longrightarrow> transform (Some payload) = Inr y \<Longrightarrow>
   (transform (Some y) = Inr y \<longleftrightarrow> y \<noteq> [] \<and> \<not> decodable y)"
  using transform_output[of payload y] transform_fixed[of y] transform_fixed_not_decodable[of y]
  by blast

theorem transform_idempotent_iff_not_decodable_witness:
  "''  A%0a%20%20B '' \<noteq> [] \<and> transform (Some ''  A%0a%20%20B '') = Inr ''a b'' \<and>
   ''a b'' \<noteq> [] \<and> \<not> decodable ''a b'' \<and> transform (Some ''a b'') = Inr ''a b'' \<and>
   ''%2541'' \<noteq> [] \<and> transform (Some ''%2541'') = Inr ''%41'' \<and>
   decodable ''%41'' \<and> transform (Some ''%41'') \<noteq> Inr ''%41''"
proof -
  have 1: "''  A%0a%20%20B '' \<noteq> []" by simp
  have 2: "transform (Some ''  A%0a%20%20B '') = Inr ''a b''" by code_simp
  have 3: "''a b'' \<noteq> []" "\<not> decodable ''a b''" by simp_all
  have 4: "''%2541'' \<noteq> []" by simp
  have 5: "transform (Some ''%2541'') = Inr ''%41''" by code_simp
  have 6: "decodable ''%41''" by code_simp
  show ?thesis
    using transform_idempotent_iff_not_decodable [OF 1 2]
      transform_idempotent_iff_not_decodable [OF 4 5] 1 2 3 4 5 6
    by blast
qed

text \<open>
  Claim C10. A non-empty payload made of whitespace only passes the emptiness check of
  \<open>_transform\<close> and is normalized to the empty string; \<open>predict\<close> and
  \<open>predict_proba\<close> then hand the empty string to the pipeline and return its answer.
\<close>

theorem whitespace_only_payload_reaches_classifier:
  assumes "payload \<noteq> []" "\<forall>c\<in>set payload. isspace c"
  shows "transform (Some payload) = Inr [] \<and>
         predict self (Some payload) = Inr (clf_predict (payload_clf self) [[]]) \<and>
         predict_proba self (Some payload) = Inr (clf_predict_proba (payload_clf self) [[]])"
proof -
  have np: "CHR ''%'' \<notin> set payload" "CHR ''+'' \<notin> set payload"
    using assms(2) by (auto simp: isspace_def)
  have "\<forall>c\<in>set (lower (remove_new_line payload)). isspace c"
    using assms(2) by (auto simp: lower_def remove_new_line_def)
  then have "remove_whitespace (lower (remove_new_line payload)) = []"
    by (simp add: remove_whitespace_def strip_all_space)
  then have t: "transform (Some payload) = Inr []"
    using assms(1) np by (simp add: transform_Some unquote_id)
  show ?thesis by (simp add: t predict_def predict_proba_def del: transform.simps)
qed

theorem whitespace_only_payload_reaches_classifier_witness:
  "'' '' \<noteq> [] \<and> isspace (CHR '' '') \<and> transform (Some '' '') = Inr [] \<and>
   predict split_classifier (Some '' '') = Inr [''sqli'']"
proof -
  have 1: "'' '' \<noteq> []" by simp
  have 2: "\<forall>c\<in>set '' ''. isspace c" by simp
  have 3: "clf_predict (payload_clf split_classifier) [[]] = [''sqli'']"
    by (simp add: split_classifier_def split_pipeline_def)
  show ?thesis
    using whitespace_only_payload_reaches_classifier [OF 1 2, of split_classifier] 2 3
    by (simp del: transform.simps)
qed

section \<open>The inference engine (C4)\<close>

text \<open>
  \<open>predict\<close> is not the argmax of \<open>predict_proba\<close> for every pipeline: with
  \<open>split_pipeline\<close> loaded, the payload \<open>' OR 1=1 --\<close> is labelled \<open>sqli\<close>
  while the maximal probability belongs to \<open>valid\<close>.
\<close>

theorem predict_argmax_counterexample:
  "transform (Some ''' OR 1=1 --'') = Inr ''' or 1=1 --'' \<and>
   predict split_classifier (Some ''' OR 1=1 --'') = Inr [''sqli''] \<and>
   predict_proba split_classifier (Some ''' OR 1=1 --'') = Inr [[1/10, 1/10, 3/10, 4/10, 1/10]] \<and>
   argmax_label (classes split_classifier) [1/10, 1/10, 3/10, 4/10, 1/10] = ''valid''"
  by (simp add: predict_def predict_proba_def split_classifier_def split_pipeline_def
      argmax_label_def argmax_def) code_simp

text \<open>
  Claim C4, amended. For every payload accepted by normalization, \<open>predict\<close> returns
  what the loaded pipeline's \<open>predict\<close> returns on the normalized payload, and
  \<open>predict_proba\<close> what the pipeline's \<open>predict_proba\<close> returns on the same
  normalized payload; the engine computes no argmax of its own. So \<open>predict\<close> is the
  argmax (first maximal position in \<open>classes_\<close> order) of \<open>predict_proba\<close>
  exactly when the pipeline's own two answers agree in that way on the normalized
  payload.
\<close>

theorem predict_is_pipeline_predict:
  "transform payload = Inr p \<Longrightarrow>
     predict self payload = Inr (clf_predict (payload_clf self) [p]) \<and>
     predict_proba self payload = Inr (clf_predict_proba (payload_clf self) [p]) \<and>
     ((\<exists>ls rows. predict self payload = Inr ls \<and> predict_proba self payload = Inr rows \<and>
                 argmax_agrees (classes self) ls rows)
      \<longleftrightarrow> argmax_agrees (classes self) (clf_predict (payload_clf self) [p])
                          (clf_predict_proba (payload_clf self) [p]))"
  by (simp add: predict_def predict_proba_def)

theorem predict_is_pipeline_predict_witness:
  "transform (Some ''' OR 1=1 --'') = Inr ''' or 1=1 --'' \<and>
   predict argmax_classifier (Some ''' OR 1=1 --'') = Inr [''valid''] \<and>
   predict_proba argmax_classifier (Some ''' OR 1=1 --'') = Inr [[1/10, 1/10, 3/10, 4/10, 1/10]] \<and>
   argmax_agrees (classes argmax_classifier) [''valid''] [[1/10, 1/10, 3/10, 4/10, 1/10]]"
proof -
  have t: "transform (Some ''' OR 1=1 --'') = Inr ''' or 1=1 --''" by code_simp
  have a: "argmax_agrees (classes argmax_classifier) [''valid''] [[1/10, 1/10, 3/10, 4/10, 1/10]]"
    by (simp add: argmax_agrees_def argmax_classifier_def argmax_pipeline_def argmax_label_def argmax_def)
  show ?thesis
    using predict_is_pipeline_predict [OF t, of argmax_classifier] t a
    by (simp add: argmax_classifier_def argmax_pipeline_def del: transform.simps)
qed

section \<open>The artifact loader (C7)\<close>





section \<open>The dataset collector (C9)\<close>

lemma map_filter_mem:
  "y \<in> set (List.map_filter f xs) \<Longrightarrow> \<exists>x\<in>set xs. f x = Some y"
  by (auto simp: List.map_filter_def)

lemma key_inj: "key r = key x \<Longrightarrow> r = x"
  by (cases r, cases x) (simp add: key_def)

lemma make_record_Some:
  assumes "make_record pat ty = Some r"
  shows "pattern r \<noteq> [] \<and> strip (pattern r) = pattern r \<and> type r \<in> VALID_TYPES"
  using assms by (auto simp: make_record_def Let_def strip_idem split: if_splits)

lemma httpparams_row_Some:
  "httpparams_row row = Inr (Some r) \<Longrightarrow>
   pattern r \<noteq> [] \<and> strip (pattern r) = pattern r \<and> type r \<in> VALID_TYPES"
  unfolding httpparams_row_def
  by (auto split: sum.splits option.splits dest: make_record_Some)

lemma httpparams_loop_ok:
  "httpparams_loop rows acc = Inr out \<Longrightarrow>
   \<forall>r\<in>set acc. pattern r \<noteq> [] \<and> strip (pattern r) = pattern r \<and> type r \<in> VALID_TYPES \<Longrightarrow>
   \<forall>r\<in>set out. pattern r \<noteq> [] \<and> strip (pattern r) = pattern r \<and> type r \<in> VALID_TYPES"
proof (induction rows arbitrary: acc)
  case Nil
  then show ?case by simp
next
  case (Cons row rows)
  show ?case
  proof (cases "httpparams_row row")
    case (Inl e)
    with Cons.prems(1) show ?thesis by simp
  next
    case (Inr v)
    show ?thesis
    proof (cases v)
      case None
      with Inr Cons.prems have "httpparams_loop rows acc = Inr out" by simp
      then show ?thesis using Cons.prems(2) by (rule Cons.IH)
    next
      case (Some r)
      with Inr Cons.prems have l: "httpparams_loop rows (acc @ [r]) = Inr out" by simp
      have "pattern r \<noteq> [] \<and> strip (pattern r) = pattern r \<and> type r \<in> VALID_TYPES"
        using Inr Some by (simp add: httpparams_row_Some)
      with Cons.prems(2)
      have "\<forall>r\<in>set (acc @ [r]). pattern r \<noteq> [] \<and> strip (pattern r) = pattern r \<and> type r \<in> VALID_TYPES"
        by simp
      with l show ?thesis by (rule Cons.IH)
    qed
  qed
qed

lemma collect_httpparams_ok:
  "collect_httpparams resp = Inr hp \<Longrightarrow> r \<in> set hp \<Longrightarrow>
   pattern r \<noteq> [] \<and> strip (pattern r) = pattern r \<and> type r \<in> VALID_TYPES"
  unfolding collect_httpparams_def
  using httpparams_loop_ok[of _ "[]" hp] by (cases resp) auto

lemma httpparams_row_total:
  assumes "\<forall>k. row k \<noteq> Some None"
  shows "\<exists>v. httpparams_row row = Inr v"
proof -
  have g: "\<exists>s. row_get row k d = Some s" for k d
  proof (cases "row k")
    case None
    then show ?thesis by (simp add: row_get_def)
  next
    case (Some v)
    with assms have "v \<noteq> None" by metis
    then show ?thesis using Some by (auto simp: row_get_def)
  qed
  obtain l where l: "row_get row ''label'' [] = Some l" using g by blast
  obtain a where a: "row_get row ''attack_type'' [] = Some a" using g by blast
  obtain p where p: "row_get row ''payload'' [] = Some p" using g by blast
  show ?thesis
    unfolding httpparams_row_def
    by (simp add: l a p value_strip_def split: option.splits)
qed

lemma httpparams_loop_total:
  "\<forall>row\<in>set rows. \<forall>k. row k \<noteq> Some None \<Longrightarrow> \<exists>out. httpparams_loop rows acc = Inr out"
proof (induction rows arbitrary: acc)
  case Nil
  show ?case by simp
next
  case (Cons row rows)
  then obtain v where v: "httpparams_row row = Inr v"
    using httpparams_row_total[of row] by auto
  from Cons have ih: "\<And>acc. \<exists>out. httpparams_loop rows acc = Inr out" by simp
  show ?case using v ih by (cases v) simp_all
qed

lemma records_of_lines_ok:
  "r \<in> set (records_of_lines ty ls) \<Longrightarrow>
   pattern r \<noteq> [] \<and> strip (pattern r) = pattern r \<and> type r \<in> VALID_TYPES"
  unfolding records_of_lines_def
  by (auto dest!: map_filter_mem dest: make_record_Some)

lemma records_of_tree_ok:
  "r \<in> set (records_of_tree t) \<Longrightarrow>
   pattern r \<noteq> [] \<and> strip (pattern r) = pattern r \<and> type r \<in> VALID_TYPES"
  unfolding records_of_tree_def
  by (auto split: option.splits dest: records_of_lines_ok)

lemma collect_payloadsallthethings_ok:
  "r \<in> set (collect_payloadsallthethings clone api) \<Longrightarrow>
   pattern r \<noteq> [] \<and> strip (pattern r) = pattern r \<and> type r \<in> VALID_TYPES"
  unfolding collect_payloadsallthethings_def sparse_clone_patt_def api_download_patt_def Let_def
  by (auto split: option.splits if_splits dest: records_of_tree_ok)

lemma fst_fold_dedup_step:
  "fst (fold dedup_step rs (seen, u)) = seen \<union> key ` set rs"
  by (induction rs arbitrary: seen u) (auto simp: dedup_step_def)

lemma deduplicate_snoc:
  "deduplicate (rs @ [r]) =
     (if key r \<in> key ` set rs then deduplicate rs else deduplicate rs @ [r])"
proof -
  obtain seen u where st: "fold dedup_step rs ({}, []) = (seen, u)"
    by (cases "fold dedup_step rs ({}, [])")
  have "seen = key ` set rs"
    using fst_fold_dedup_step[of rs "{}" "[]"] st by simp
  then show ?thesis
    by (simp add: deduplicate_def st dedup_step_def)
qed

lemma deduplicate_Nil: "deduplicate [] = []"
  by (simp add: deduplicate_def)

lemma first_occurrences_snoc:
  "first_occurrences (rs @ [r]) =
     (if key r \<in> key ` set rs then first_occurrences rs else first_occurrences rs @ [r])"
proof -
  let ?n = "length rs"
  let ?P = "\<lambda>xs i. key (xs ! i) \<notin> key ` set (take i xs)"
  have f: "filter (?P (rs @ [r])) [0..<?n] = filter (?P rs) [0..<?n]"
    by (rule filter_cong) (auto simp: nth_append)
  have m: "map (\<lambda>i. (rs @ [r]) ! i) (filter (?P rs) [0..<?n]) = map (\<lambda>i. rs ! i) (filter (?P rs) [0..<?n])"
    by (rule map_cong) (auto simp: nth_append)
  have "first_occurrences (rs @ [r]) =
          map (\<lambda>i. (rs @ [r]) ! i) (filter (?P (rs @ [r])) ([0..<?n] @ [?n]))"
    by (simp add: first_occurrences_def)
  also have "\<dots> = map (\<lambda>i. rs ! i) (filter (?P rs) [0..<?n]) @
                   (if key r \<in> key ` set rs then [] else [r])"
    by (simp only: filter_append map_append f m) simp
  finally show ?thesis by (simp add: first_occurrences_def)
qed

lemma deduplicate_first_occurrences: "deduplicate rs = first_occurrences rs"
proof (induction rs rule: rev_induct)
  case Nil
  show ?case by (simp add: deduplicate_Nil first_occurrences_def)
next
  case (snoc r rs)
  then show ?case by (simp only: deduplicate_snoc first_occurrences_snoc)
qed

lemma set_deduplicate: "set (deduplicate rs) = set rs"
proof (induction rs rule: rev_induct)
  case Nil
  show ?case by (simp add: deduplicate_Nil)
next
  case (snoc r rs)
  have "key r \<in> key ` set rs \<Longrightarrow> r \<in> set rs"
    by (auto dest: key_inj)
  with snoc show ?case by (auto simp: deduplicate_snoc)
qed

lemma distinct_deduplicate: "distinct (map key (deduplicate rs))"
proof (induction rs rule: rev_induct)
  case Nil
  show ?case by (simp add: deduplicate_Nil)
next
  case (snoc r rs)
  then show ?case by (simp add: deduplicate_snoc set_deduplicate)
qed

lemma collect_main_Inr:
  "collect_main resp clone api = Inr out \<longleftrightarrow>
   (\<exists>hp. collect_httpparams resp = Inr hp \<and>
         out = deduplicate (hp @ collect_payloadsallthethings clone api))"
  by (cases "collect_httpparams resp")
    (auto simp: collect_main_def collect_kaggle_xss_def collect_ecml_pkdd_def
      collect_hacktricks_def)

text \<open>
  Claim C9. Every record that the collector writes has a non-empty pattern that equals
  its own strip and a type in \<open>VALID_TYPES\<close>; the keys (pattern, type) of the output
  are pairwise distinct, the output holds exactly the records collected, and it is the
  list of first occurrences of the collected records, in their order. The collector
  does write an output whenever no row of the CSV file lacks a field (a row that does
  ends the run with an \<open>AttributeError\<close> before anything is written).
\<close>

theorem collector_output_invariant:
  "(collect_main resp clone api = Inr out \<longrightarrow>
      (\<forall>r\<in>set out. pattern r \<noteq> [] \<and> strip (pattern r) = pattern r \<and> type r \<in> VALID_TYPES) \<and>
      distinct (map key out) \<and>
      (\<exists>hp. collect_httpparams resp = Inr hp \<and>
            set out = set (hp @ collect_payloadsallthethings clone api) \<and>
            out = first_occurrences (hp @ collect_payloadsallthethings clone api))) \<and>
   ((\<forall>rows. resp = Some rows \<longrightarrow> (\<forall>row\<in>set rows. \<forall>k. row k \<noteq> Some None)) \<longrightarrow>
      (\<exists>out. collect_main resp clone api = Inr out))"
proof (intro conjI impI)
  assume "collect_main resp clone api = Inr out"
  then obtain hp where hp: "collect_httpparams resp = Inr hp"
    and out: "out = deduplicate (hp @ collect_payloadsallthethings clone api)"
    using collect_main_Inr by blast
  let ?all = "hp @ collect_payloadsallthethings clone api"
  have ok: "\<forall>r\<in>set ?all. pattern r \<noteq> [] \<and> strip (pattern r) = pattern r \<and> type r \<in> VALID_TYPES"
    using collect_httpparams_ok[OF hp] collect_payloadsallthethings_ok by auto
  show "\<forall>r\<in>set out. pattern r \<noteq> [] \<and> strip (pattern r) = pattern r \<and> type r \<in> VALID_TYPES"
    using ok by (simp only: out set_deduplicate)
  show "distinct (map key out)" by (simp only: out distinct_deduplicate)
  have "set out = set ?all" by (simp only: out set_deduplicate)
  moreover have "out = first_occurrences ?all" by (simp only: out deduplicate_first_occurrences)
  ultimately show "\<exists>hp. collect_httpparams resp = Inr hp \<and>
            set out = set (hp @ collect_payloadsallthethings clone api) \<and>
            out = first_occurrences (hp @ collect_payloadsallthethings clone api)"
    using hp by blast
next
  assume a: "\<forall>rows. resp = Some rows \<longrightarrow> (\<forall>row\<in>set rows. \<forall>k. row k \<noteq> Some None)"
  have "\<exists>hp. collect_httpparams resp = Inr hp"
  proof (cases resp)
    case None
    then show ?thesis by (simp add: collect_httpparams_def)
  next
    case (Some rows)
    with a have "\<forall>row\<in>set rows. \<forall>k. row k \<noteq> Some None" by simp
    then show ?thesis using Some httpparams_loop_total[of rows "[]"]
      by (simp add: collect_httpparams_def)
  qed
  then show "\<exists>out. collect_main resp clone api = Inr out"
    using collect_main_Inr by blast
qed

theorem collector_output_invariant_witness:
  "collect_main (Some sample_rows) (Some sample_tree) Map.empty =
     Inr [\<lparr>pattern = ''1 OR 1=1'', type = ''sqli''\<rparr>,
          \<lparr>pattern = ''hello'', type = ''valid''\<rparr>,
          \<lparr>pattern = ''admin' --'', type = ''sqli''\<rparr>,
          \<lparr>pattern = ''; ls'', type = ''cmdi''\<rparr>,
          \<lparr>pattern = ''hello'', type = ''cmdi''\<rparr>] \<and>
   pattern \<lparr>pattern = ''; ls'', type = ''cmdi''\<rparr> \<noteq> [] \<and>
   strip (pattern \<lparr>pattern = ''; ls'', type = ''cmdi''\<rparr>) =
     pattern \<lparr>pattern = ''; ls'', type = ''cmdi''\<rparr> \<and>
   type \<lparr>pattern = ''; ls'', type = ''cmdi''\<rparr> \<in> VALID_TYPES \<and>
   distinct (map key [\<lparr>pattern = ''1 OR 1=1'', type = ''sqli''\<rparr>,
          \<lparr>pattern = ''hello'', type = ''valid''\<rparr>,
          \<lparr>pattern = ''admin' --'', type = ''sqli''\<rparr>,
          \<lparr>pattern = ''; ls'', type = ''cmdi''\<rparr>,
          \<lparr>pattern = ''hello'', type = ''cmdi''\<rparr>]) \<and>
   collect_main (Some (sample_rows @ [short_row])) (Some sample_tree) Map.empty =
     Inl (AttributeError ''strip'')"
proof -
  let ?out = "[\<lparr>pattern = ''1 OR 1=1'', type = ''sqli''\<rparr>,
          \<lparr>pattern = ''hello'', type = ''valid''\<rparr>,
          \<lparr>pattern = ''admin' --'', type = ''sqli''\<rparr>,
          \<lparr>pattern = ''; ls'', type = ''cmdi''\<rparr>,
          \<lparr>pattern = ''hello'', type = ''cmdi''\<rparr>]"
  have e: "collect_main (Some sample_rows) (Some sample_tree) Map.empty = Inr ?out"
    by code_simp
  have s: "collect_main (Some (sample_rows @ [short_row])) (Some sample_tree) Map.empty =
     Inl (AttributeError ''strip'')"
    by code_simp
  have mem: "\<lparr>pattern = ''; ls'', type = ''cmdi''\<rparr> \<in> set ?out" by simp
  note inv = collector_output_invariant [where resp = "Some sample_rows"
      and clone = "Some sample_tree" and api = Map.empty and out = ?out, THEN conjunct1]
  from inv e
  have "(\<forall>r\<in>set ?out. pattern r \<noteq> [] \<and> strip (pattern r) = pattern r \<and> type r \<in> VALID_TYPES) \<and>
      distinct (map key ?out) \<and>
      (\<exists>hp. collect_httpparams (Some sample_rows) = Inr hp \<and>
            set ?out = set (hp @ collect_payloadsallthethings (Some sample_tree) Map.empty) \<and>
            ?out = first_occurrences (hp @ collect_payloadsallthethings (Some sample_tree) Map.empty))"
    by (rule mp)
  then have "pattern \<lparr>pattern = ''; ls'', type = ''cmdi''\<rparr> \<noteq> [] \<and>
      strip (pattern \<lparr>pattern = ''; ls'', type = ''cmdi''\<rparr>) =
        pattern \<lparr>pattern = ''; ls'', type = ''cmdi''\<rparr> \<and>
      type \<lparr>pattern = ''; ls'', type = ''cmdi''\<rparr> \<in> VALID_TYPES"
    and "distinct (map key ?out)"
    using mem by blast+
  with e s show ?thesis by blast
qed

section \<open>The training harness (C5, C6)\<close>

text \<open>
  Claim C5. When the split and the fit succeed and the test accuracy is below
  \<open>MIN_ACCURACY\<close> (0.98), \<open>main\<close> exits with status 1 (the code's form of
  AccuracyGateError) after the fit: neither the model directory nor the model file is
  written, and the model file, the model directory and the dataset file are as before.
\<close>

theorem accuracy_gate_blocks_publication:
  assumes "dataset_file d = Some df" "df \<noteq> []"
    "train_test_split sk (map pattern df) (map type df) = Inr (train_x, test_x, train_y, test_y)"
    "fit sk train_x train_y = Inr pipe"
    "score sk pipe test_x test_y < MIN_ACCURACY"
  shows "MIN_ACCURACY = 98 / 100 \<and>
         train_main sk d = (Inl (SystemExit 1), d\<lparr>calls := calls d @ [ReadJson, TrainTestSplit, Fit]\<rparr>) \<and>
         model_file (snd (train_main sk d)) = model_file d \<and>
         model_dir (snd (train_main sk d)) = model_dir d \<and>
         dataset_file (snd (train_main sk d)) = dataset_file d"
proof -
  have "train_main sk d = (Inl (SystemExit 1), d\<lparr>calls := calls d @ [ReadJson, TrainTestSplit, Fit]\<rparr>)"
    using assms by (simp add: train_main_def called_def Let_def)
  then show ?thesis by (simp add: MIN_ACCURACY_def)
qed

theorem accuracy_gate_blocks_publication_witness:
  "(9/10 :: rat) < MIN_ACCURACY \<and>
   train_main (stub_sklearn (9/10)) (fresh_disk gated_dataset) =
     (Inl (SystemExit 1),
      \<lparr> dataset_file = Some gated_dataset, model_dir = False, model_file = None,
        calls = [ReadJson, TrainTestSplit, Fit] \<rparr>) \<and>
   model_file (snd (train_main (stub_sklearn (9/10)) (fresh_disk gated_dataset))) = None"
proof -
  let ?sk = "stub_sklearn (9/10)"
  let ?d = "fresh_disk gated_dataset"
  let ?X = "map pattern gated_dataset"
  let ?y = "map type gated_dataset"
  let ?xtrain = "fst (every_fourth 0 ?X)"
  let ?xtest = "snd (every_fourth 0 ?X)"
  let ?ytrain = "fst (every_fourth 0 ?y)"
  let ?ytest = "snd (every_fourth 0 ?y)"
  have 1: "dataset_file ?d = Some gated_dataset" by (simp add: fresh_disk_def)
  have 2: "gated_dataset \<noteq> []" by (simp add: gated_dataset_def)
  have 3: "train_test_split ?sk ?X ?y = Inr (?xtrain, ?xtest, ?ytrain, ?ytest)"
    by (simp add: stub_sklearn_def)
  have 4: "fit ?sk ?xtrain ?ytrain = Inr (remdups ?ytrain)" by (simp add: stub_sklearn_def)
  have 5: "score ?sk (remdups ?ytrain) ?xtest ?ytest < MIN_ACCURACY"
    by (simp add: stub_sklearn_def MIN_ACCURACY_def)
  have 6: "(9/10 :: rat) < MIN_ACCURACY" by (simp add: MIN_ACCURACY_def)
  show ?thesis
    using accuracy_gate_blocks_publication [OF 1 2 3 4 5] 6
    by (simp add: fresh_disk_def)
qed

text \<open>
  \<open>main\<close> does not reject a label outside the closed set: the dataset
  \<open>foreign_dataset\<close> carries the label \<open>html-injection\<close>, and with a library that
  splits and fits it and reports accuracy 1, the split and the fit are called and the
  model file is written.
\<close>

theorem train_validation_counterexample:
  "type (foreign_dataset ! 1) = ''html-injection'' \<and> ''html-injection'' \<notin> VALID_TYPES \<and>
   fst (train_main (stub_sklearn 1) (fresh_disk foreign_dataset)) = Inr () \<and>
   calls (snd (train_main (stub_sklearn 1) (fresh_disk foreign_dataset))) =
     [ReadJson, TrainTestSplit, Fit, Mkdir, Dump] \<and>
   model_file (snd (train_main (stub_sklearn 1) (fresh_disk foreign_dataset))) =
     Some [''html-injection'', ''valid'']"
  by (simp add: foreign_dataset_def VALID_TYPES_def train_main_def stub_sklearn_def
      fresh_disk_def called_def MIN_ACCURACY_def Let_def)

text \<open>
  Claim C6, amended. \<open>main\<close> does not validate the contents of the dataset. Its only
  check before fitting is that the dataset file exists: if it does not, \<open>main\<close> exits
  with status 1 without any read, split, fit or write. A non-empty dataset is handed to
  the stratified split whatever its labels; when the split and the fit succeed and the
  test accuracy is not below \<open>MIN_ACCURACY\<close>, the fitted pipeline is written to the
  model file.
\<close>

theorem train_checks_only_dataset_existence:
  "(dataset_file d = None \<longrightarrow> train_main sk d = (Inl (SystemExit 1), d)) \<and>
   (dataset_file d = Some df \<and> df \<noteq> [] \<longrightarrow>
      TrainTestSplit \<in> set (calls (snd (train_main sk d)))) \<and>
   (dataset_file d = Some df \<and> df \<noteq> [] \<and>
    train_test_split sk (map pattern df) (map type df) = Inr (train_x, test_x, train_y, test_y) \<and>
    fit sk train_x train_y = Inr pipe \<and>
    \<not> score sk pipe test_x test_y < MIN_ACCURACY \<longrightarrow>
      train_main sk d =
        (Inr (), d\<lparr> calls := calls d @ [ReadJson, TrainTestSplit, Fit, Mkdir, Dump],
                    model_dir := True, model_file := Some pipe \<rparr>))"
proof (intro conjI impI)
  assume "dataset_file d = None"
  then show "train_main sk d = (Inl (SystemExit 1), d)" by (simp add: train_main_def)
next
  assume "dataset_file d = Some df \<and> df \<noteq> []"
  then show "TrainTestSplit \<in> set (calls (snd (train_main sk d)))"
    by (auto simp: train_main_def called_def Let_def split: sum.splits prod.splits)
next
  assume "dataset_file d = Some df \<and> df \<noteq> [] \<and>
    train_test_split sk (map pattern df) (map type df) = Inr (train_x, test_x, train_y, test_y) \<and>
    fit sk train_x train_y = Inr pipe \<and>
    \<not> score sk pipe test_x test_y < MIN_ACCURACY"
  then show "train_main sk d =
        (Inr (), d\<lparr> calls := calls d @ [ReadJson, TrainTestSplit, Fit, Mkdir, Dump],
                    model_dir := True, model_file := Some pipe \<rparr>)"
    by (simp add: train_main_def called_def Let_def)
qed

theorem train_checks_only_dataset_existence_witness:
  "train_main (stub_sklearn 1)
     \<lparr> dataset_file = None, model_dir = False, model_file = None, calls = [] \<rparr> =
     (Inl (SystemExit 1),
      \<lparr> dataset_file = None, model_dir = False, model_file = None, calls = [] \<rparr>) \<and>
   TrainTestSplit \<in> set (calls (snd (train_main (stub_sklearn 1) (fresh_disk foreign_dataset)))) \<and>
   train_main (stub_sklearn 1) (fresh_disk foreign_dataset) =
     (Inr (), \<lparr> dataset_file = Some foreign_dataset, model_dir = True,
                model_file = Some (remdups (fst (every_fourth 0 (map type foreign_dataset)))),
                calls = [ReadJson, TrainTestSplit, Fit, Mkdir, Dump] \<rparr>)"
proof -
  let ?sk = "stub_sklearn 1"
  let ?nodata = "\<lparr> dataset_file = None, model_dir = False, model_file = None, calls = [] \<rparr> :: (string list) disk"
  let ?d = "fresh_disk foreign_dataset"
  let ?X = "map pattern foreign_dataset"
  let ?y = "map type foreign_dataset"
  let ?xtrain = "fst (every_fourth 0 ?X)"
  let ?xtest = "snd (every_fourth 0 ?X)"
  let ?ytrain = "fst (every_fourth 0 ?y)"
  let ?ytest = "snd (every_fourth 0 ?y)"
  have h: "dataset_file ?d = Some foreign_dataset \<and> foreign_dataset \<noteq> [] \<and>
    train_test_split ?sk ?X ?y = Inr (?xtrain, ?xtest, ?ytrain, ?ytest) \<and>
    fit ?sk ?xtrain ?ytrain = Inr (remdups ?ytrain) \<and>
    \<not> score ?sk (remdups ?ytrain) ?xtest ?ytest < MIN_ACCURACY"
    by (simp add: fresh_disk_def foreign_dataset_def stub_sklearn_def MIN_ACCURACY_def)
  from train_checks_only_dataset_existence [where d = ?nodata and sk = ?sk]
  have 1: "train_main ?sk ?nodata = (Inl (SystemExit 1), ?nodata)" by simp
  from train_checks_only_dataset_existence [where d = ?d and sk = ?sk and df = foreign_dataset
      and train_x = ?xtrain and test_x = ?xtest and train_y = ?ytrain and test_y = ?ytest
      and pipe = "remdups ?ytrain"] h
  have 2: "TrainTestSplit \<in> set (calls (snd (train_main ?sk ?d)))"
    and 3: "train_main ?sk ?d =
        (Inr (), ?d\<lparr> calls := calls ?d @ [ReadJson, TrainTestSplit, Fit, Mkdir, Dump],
                    model_dir := True, model_file := Some (remdups ?ytrain) \<rparr>)"
    by blast+
  show ?thesis using 1 2 3 by (simp add: fresh_disk_def)
qed

end
